theory Spec2Isabelle
  imports Main
begin

section \<open>Python values\<close>

text \<open>
  The program is one Python module, \<^verbatim>\<open>main.py\<close>. Its data are JSON values as
  \<^verbatim>\<open>resp.json()\<close> and the actor input deliver them, and dict literals built from them.
  A dict is an association list in insertion order, read with \<open>map_of\<close>.
  Strings are sequences of code points below 256.
\<close>

text \<open>A float is kept as sign, mantissa and binary exponent; only its truth value is used.\<close>

datatype pyfloat = Finite bool nat int | Infinite bool | NaN

datatype json =
    JNull
  | JBool bool
  | JInt int
  | JFloat pyfloat
  | JStr string
  | JList "json list"
  | JObj "(string \<times> json) list"

type_synonym pydict = "(string \<times> json) list"

text \<open>The exceptions that escape the functions of the module.\<close>

datatype exn = AttributeError | TypeError

fun float_truthy :: "pyfloat \<Rightarrow> bool" where
  "float_truthy (Finite s m e) = (0 < m)"
| "float_truthy (Infinite s) = True"
| "float_truthy NaN = True"

text \<open>\<^verbatim>\<open>bool(v)\<close>, the test behind \<^verbatim>\<open>if v\<close>, \<^verbatim>\<open>not v\<close> and \<^verbatim>\<open>a or b\<close>.\<close>

fun truthy :: "json \<Rightarrow> bool" where
  "truthy JNull = False"
| "truthy (JBool b) = b"
| "truthy (JInt i) = (if i = 0 then False else True)"
| "truthy (JFloat f) = float_truthy f"
| "truthy (JStr s) = (case s of [] \<Rightarrow> False | _ # _ \<Rightarrow> True)"
| "truthy (JList xs) = (case xs of [] \<Rightarrow> False | _ # _ \<Rightarrow> True)"
| "truthy (JObj kv) = (case kv of [] \<Rightarrow> False | _ # _ \<Rightarrow> True)"

text \<open>\<^verbatim>\<open>isinstance(v, dict)\<close>.\<close>

fun is_dict :: "json \<Rightarrow> bool" where
  "is_dict (JObj kv) = True"
| "is_dict _ = False"

text \<open>
  \<^verbatim>\<open>v.get(key, default)\<close>: only a dict has the method; on any other value the
  attribute lookup raises \<^verbatim>\<open>AttributeError\<close>.
\<close>

fun py_get :: "json \<Rightarrow> string \<Rightarrow> json \<Rightarrow> exn + json" where
  "py_get (JObj kv) key dflt = Inr (case map_of kv key of None \<Rightarrow> dflt | Some v \<Rightarrow> v)"
| "py_get _ key dflt = Inl AttributeError"

text \<open>Sequencing of computations that may raise.\<close>

definition then_do :: "exn + 'a \<Rightarrow> ('a \<Rightarrow> exn + 'b) \<Rightarrow> exn + 'b" where
  "then_do m f = (case m of Inl e \<Rightarrow> Inl e | Inr v \<Rightarrow> f v)"

section \<open>The HTTP client, seen from the module\<close>

text \<open>\<^verbatim>\<open>httpx.Timeout(timeout=15, connect=4, read=8)\<close>: the unnamed budgets take the default.\<close>

record timeout_cfg =
  t_connect :: int
  t_read :: int
  t_write :: int
  t_pool :: int

definition SOCK_CONNECT_TIMEOUT :: int where "SOCK_CONNECT_TIMEOUT = 4"
definition SOCK_READ_TIMEOUT :: int where "SOCK_READ_TIMEOUT = 8"
definition TOTAL_TIMEOUT :: int where "TOTAL_TIMEOUT = 15"

definition HTTPX_TIMEOUT :: timeout_cfg where
  "HTTPX_TIMEOUT = \<lparr>t_connect = SOCK_CONNECT_TIMEOUT, t_read = SOCK_READ_TIMEOUT,
                    t_write = TOTAL_TIMEOUT, t_pool = TOTAL_TIMEOUT\<rparr>"

definition BASE_HEADERS :: "(string \<times> string) list" where
  "BASE_HEADERS = [(''x-ig-app-id'', ''936619743392459'')]"

text \<open>One call of \<^verbatim>\<open>client.get\<close>, with the settings of the client it is made on.\<close>

record request =
  req_url :: string
  req_headers :: "(string \<times> string) list"
  req_cookies :: "(string \<times> string) list"
  req_proxy :: "string option"
  req_timeout :: timeout_cfg

text \<open>
  The exceptions \<^verbatim>\<open>client.get\<close> may raise, as the \<^verbatim>\<open>except\<close> clauses tell them
  apart. The four named classes are disjoint; anything else is caught by
  \<^verbatim>\<open>except Exception as exc\<close> and carries \<^verbatim>\<open>str(exc)\<close>.
\<close>

datatype transport_error =
    ConnectTimeout
  | ConnectError
  | WriteTimeout
  | ReadTimeout
  | OtherException string

text \<open>
  A response: its status code and what \<^verbatim>\<open>resp.json()\<close> does, either raising
  (\<open>Inl\<close> the text of the exception) or returning the parsed value.
\<close>

record response =
  status_code :: int
  body_json :: "string + json"

datatype http_outcome = Raised transport_error | Responded response

text \<open>
  The surroundings of one fetch: Python's \<^verbatim>\<open>str()\<close> on a value (used by the f-strings),
  what \<^verbatim>\<open>new_url()\<close> of the proxy handle yields for this call, and how the network
  answers the request. The handle and the construction of the client are taken to
  succeed; a proxy configuration that is there counts as true.
\<close>

record 'p env =
  py_str :: "json \<Rightarrow> string"
  new_url :: "'p \<Rightarrow> string"
  client_get :: "request \<Rightarrow> http_outcome"

section \<open>fetch_profile\<close>

definition profile_url :: "string \<Rightarrow> string" where
  "profile_url username =
     ''https://i.instagram.com/api/v1/users/web_profile_info/?username='' @ username"

text \<open>\<^verbatim>\<open>proxy_url = proxy_config.new_url() if proxy_config else None\<close>.\<close>

definition resolve_proxy :: "'p env \<Rightarrow> 'p option \<Rightarrow> string option" where
  "resolve_proxy env proxy_config =
     (case proxy_config of None \<Rightarrow> None | Some pc \<Rightarrow> Some (new_url env pc))"

definition proxy_value :: "string option \<Rightarrow> json" where
  "proxy_value proxy_url = (case proxy_url of None \<Rightarrow> JNull | Some p \<Rightarrow> JStr p)"

definition request_for ::
  "string \<Rightarrow> (string \<times> string) list \<Rightarrow> timeout_cfg \<Rightarrow> string option \<Rightarrow> request" where
  "request_for username headers timeout proxy_url =
     \<lparr>req_url = profile_url username, req_headers = headers, req_cookies = [],
      req_proxy = proxy_url, req_timeout = timeout\<rparr>"

text \<open>Lines 70 to 83: the nested user object and the success record.\<close>

definition success_record :: "string \<Rightarrow> json \<Rightarrow> json \<Rightarrow> exn + pydict" where
  "success_record username proxy data =
     then_do (if is_dict data
              then then_do (py_get data ''data'' (JObj [])) (\<lambda>d. py_get d ''user'' (JObj []))
              else Inr (JObj [])) (\<lambda>user.
     then_do (py_get user ''id'' JNull) (\<lambda>user_id.
     then_do (then_do (py_get user ''edge_followed_by'' (JObj []))
                (\<lambda>e. py_get e ''count'' JNull)) (\<lambda>followers_count.
     then_do (then_do (py_get user ''edge_follow'' (JObj []))
                (\<lambda>e. py_get e ''count'' JNull)) (\<lambda>following_count.
     then_do (py_get user ''full_name'' JNull) (\<lambda>full_name.
     then_do (py_get user ''is_private'' JNull) (\<lambda>is_private.
     then_do (py_get user ''is_verified'' JNull) (\<lambda>is_verified.
     then_do (then_do (py_get user ''profile_pic_url_hd'' JNull) (\<lambda>hd_url.
                if truthy hd_url then Inr hd_url
                else py_get user ''profile_pic_url'' JNull)) (\<lambda>profile_pic_url.
     Inr [(''username'', JStr username),
          (''user_id'', user_id),
          (''followers_count'', followers_count),
          (''following_count'', following_count),
          (''full_name'', full_name),
          (''is_private'', is_private),
          (''is_verified'', is_verified),
          (''profile_pic_url'', profile_pic_url),
          (''raw'', data),
          (''status'', JStr ''ok''),
          (''proxy'', proxy)]))))))))"

text \<open>Lines 62 to 83: what is made of the parsed body of a 200 response.\<close>

definition from_payload :: "'p env \<Rightarrow> string \<Rightarrow> json \<Rightarrow> json \<Rightarrow> exn + pydict" where
  "from_payload env username proxy data =
     then_do (py_get data ''error'' JNull) (\<lambda>err.
       if truthy err
       then then_do (py_get data ''status_code'' (JInt 500)) (\<lambda>code.
              Inr [(''username'', JStr username),
                   (''error'', JStr (''Failed to fetch user details: '' @ py_str env err)),
                   (''status_code'', code),
                   (''proxy'', proxy)])
       else success_record username proxy data)"

text \<open>
  The whole function. Its value is the list of requests it sent and either the exception
  that escapes it or the dict it returns.
\<close>

definition fetch_profile ::
  "'p env \<Rightarrow> string \<Rightarrow> (string \<times> string) list \<Rightarrow> timeout_cfg \<Rightarrow> 'p option
     \<Rightarrow> request list \<times> (exn + pydict)" where
  "fetch_profile env username headers timeout proxy_config =
     (let proxy_url = resolve_proxy env proxy_config;
          proxy = proxy_value proxy_url;
          req = request_for username headers timeout proxy_url
      in ([req],
          case client_get env req of
            Raised ConnectTimeout \<Rightarrow>
              Inr [(''username'', JStr username), (''error'', JStr ''Proxy connect timeout''),
                   (''proxy'', proxy)]
          | Raised ConnectError \<Rightarrow>
              Inr [(''username'', JStr username), (''error'', JStr ''Proxy connect error''),
                   (''proxy'', proxy)]
          | Raised WriteTimeout \<Rightarrow>
              Inr [(''username'', JStr username), (''error'', JStr ''Proxy write timeout''),
                   (''proxy'', proxy)]
          | Raised ReadTimeout \<Rightarrow>
              Inr [(''username'', JStr username), (''error'', JStr ''Proxy read timeout''),
                   (''proxy'', proxy)]
          | Raised (OtherException msg) \<Rightarrow>
              Inr [(''username'', JStr username), (''error'', JStr msg), (''proxy'', proxy)]
          | Responded resp \<Rightarrow>
              if status_code resp = 401
              then Inr [(''username'', JStr username), (''error'', JStr ''Unauthorized error''),
                        (''status_code'', JInt 401), (''proxy'', proxy)]
              else if status_code resp \<noteq> 200
              then Inr [(''username'', JStr username),
                        (''error'', JStr (''Failed to fetch user details: ''
                                           @ py_str env (JInt (status_code resp)))),
                        (''status_code'', JInt (status_code resp)),
                        (''proxy'', proxy)]
              else (case body_json resp of
                      Inl exc \<Rightarrow>
                        Inr [(''username'', JStr username),
                             (''error'', JStr (''Invalid JSON: '' @ exc)),
                             (''proxy'', proxy)]
                    | Inr data \<Rightarrow> from_payload env username proxy data)))"

section \<open>run_scrape\<close>

text \<open>
  \<^verbatim>\<open>max_concurrency: int = 10\<close>: \<open>None\<close> stands for a call that leaves the argument out.
\<close>

definition max_concurrency_arg :: "int option \<Rightarrow> int" where
  "max_concurrency_arg max_concurrency = (case max_concurrency of None \<Rightarrow> 10 | Some m \<Rightarrow> m)"

text \<open>\<^verbatim>\<open>sem = asyncio.Semaphore(max(1, max_concurrency))\<close>: the initial value of the counter.\<close>

definition semaphore_init :: "int option \<Rightarrow> nat" where
  "semaphore_init max_concurrency = nat (max 1 (max_concurrency_arg max_concurrency))"

text \<open>
  \<^verbatim>\<open>asyncio.gather\<close> without \<^verbatim>\<open>return_exceptions\<close>: the results in the order of the
  awaitables, or the exception of a task that raised. Every exception a fetch can raise
  is the same \<^verbatim>\<open>AttributeError\<close>, so the one kept is immaterial.
\<close>

fun gather :: "(exn + 'a) list \<Rightarrow> exn + 'a list" where
  "gather [] = Inr []"
| "gather (Inl e # ts) = Inl e"
| "gather (Inr r # ts) = (case gather ts of Inl e \<Rightarrow> Inl e | Inr rs \<Rightarrow> Inr (r # rs))"

text \<open>
  Task \<open>i\<close> of a call of \<^verbatim>\<open>run_scrape\<close> is \<^verbatim>\<open>wrapped(usernames[i])\<close>, run in its own
  surroundings \<open>envs i\<close>: the outcome of its fetch, and the requests it sends.
\<close>

definition fetch_outcome ::
  "(nat \<Rightarrow> 'p env) \<Rightarrow> string list \<Rightarrow> (string \<times> string) list \<Rightarrow> timeout_cfg \<Rightarrow> 'p option
     \<Rightarrow> nat \<Rightarrow> exn + pydict" where
  "fetch_outcome envs usernames headers timeout proxy_config i =
     snd (fetch_profile (envs i) (usernames ! i) headers timeout proxy_config)"

definition fetch_requests ::
  "(nat \<Rightarrow> 'p env) \<Rightarrow> string list \<Rightarrow> (string \<times> string) list \<Rightarrow> timeout_cfg \<Rightarrow> 'p option
     \<Rightarrow> nat \<Rightarrow> request list" where
  "fetch_requests envs usernames headers timeout proxy_config i =
     fst (fetch_profile (envs i) (usernames ! i) headers timeout proxy_config)"

subsection \<open>The tasks under the semaphore\<close>

text \<open>
  A task waits for the semaphore, holds it while \<^verbatim>\<open>fetch_profile\<close> runs, and gives it
  back when \<^verbatim>\<open>async with sem\<close> is left, by a return or by an exception. A task that
  has not ended when the run is torn down is cancelled.
\<close>

datatype task = Pending | InFlight | Done "exn + pydict" | Cancelled

text \<open>
  The state of a run: the counter of the semaphore, the tasks, the tasks that have
  started their fetch (in the order they started), and whether the run was torn down.
\<close>

record pool =
  sem_value :: nat
  tasks :: "task list"
  started :: "nat list"
  aborted :: bool

definition start_pool :: "nat \<Rightarrow> int option \<Rightarrow> pool" where
  "start_pool n max_concurrency =
     \<lparr>sem_value = semaphore_init max_concurrency, tasks = replicate n Pending,
      started = [], aborted = False\<rparr>"

definition in_flight :: "pool \<Rightarrow> nat" where
  "in_flight s = length (filter (\<lambda>t. t = InFlight) (tasks s))"

text \<open>A task whose fetch ended by an exception.\<close>

fun raised :: "task \<Rightarrow> bool" where
  "raised (Done (Inl e)) = True"
| "raised _ = False"

fun cancel :: "task \<Rightarrow> task" where
  "cancel Pending = Cancelled"
| "cancel InFlight = Cancelled"
| "cancel t = t"

datatype event = Acquire nat | Release nat | Abort

text \<open>
  One event of the loop; \<open>None\<close> when it cannot happen in this state.
  \<^item> \<open>Acquire i\<close>: task \<open>i\<close> takes a slot and starts its fetch. The counter must be
    positive, and the semaphore serves its waiters in the order they came, which is
    the order of the tasks: no earlier task is still waiting.
  \<^item> \<open>Release i\<close>: the fetch of task \<open>i\<close> is over with \<open>outcome i\<close>, a result or an
    exception, and the slot is given back.
  \<^item> \<open>Abort\<close>: a task has raised; \<^verbatim>\<open>gather\<close> has passed the exception on to the caller
    of \<^verbatim>\<open>run_scrape\<close>, nothing catches it, and the run is torn down: every task that is
    not over is cancelled, those in flight giving their slots back. How many other
    events the loop handles between the exception and the end is not the program's
    to choose. Nothing happens after it.
\<close>

fun fire :: "(nat \<Rightarrow> exn + pydict) \<Rightarrow> event \<Rightarrow> pool \<Rightarrow> pool option" where
  "fire outcome (Acquire i) s =
     (if \<not> aborted s \<and> i < length (tasks s) \<and> tasks s ! i = Pending
         \<and> Pending \<notin> set (take i (tasks s)) \<and> 0 < sem_value s
      then Some (s\<lparr>sem_value := sem_value s - 1, tasks := (tasks s)[i := InFlight],
                   started := started s @ [i]\<rparr>)
      else None)"
| "fire outcome (Release i) s =
     (if \<not> aborted s \<and> i < length (tasks s) \<and> tasks s ! i = InFlight
      then Some (s\<lparr>sem_value := sem_value s + 1, tasks := (tasks s)[i := Done (outcome i)]\<rparr>)
      else None)"
| "fire outcome Abort s =
     (if \<not> aborted s \<and> list_ex raised (tasks s)
      then Some (s\<lparr>sem_value := sem_value s + in_flight s, tasks := map cancel (tasks s),
                   aborted := True\<rparr>)
      else None)"

text \<open>A schedule is a list of events; it runs as far as each event can happen.\<close>

fun run :: "(nat \<Rightarrow> exn + pydict) \<Rightarrow> event list \<Rightarrow> pool \<Rightarrow> pool option" where
  "run outcome [] s = Some s"
| "run outcome (ev # evs) s =
     (case fire outcome ev s of None \<Rightarrow> None | Some s' \<Rightarrow> run outcome evs s')"

fun is_done :: "task \<Rightarrow> bool" where
  "is_done (Done r) = True"
| "is_done _ = False"

definition finished :: "pool \<Rightarrow> bool" where
  "finished s = list_all is_done (tasks s)"

fun outcomes :: "task list \<Rightarrow> (exn + pydict) list" where
  "outcomes [] = []"
| "outcomes (Done r # ts) = r # outcomes ts"
| "outcomes (t # ts) = outcomes ts"

text \<open>
  \<^verbatim>\<open>run_scrape\<close> under a schedule \<open>evs\<close> of the event loop: the requests that were
  sent, and what the caller gets, the dict of the gathered results or the exception of
  a task that raised. The run is over when every task is over or when it was torn down;
  \<open>None\<close> for a list of events that the loop cannot run or that stops before that.
\<close>

definition run_scrape ::
  "(nat \<Rightarrow> 'p env) \<Rightarrow> string list \<Rightarrow> (string \<times> string) list \<Rightarrow> timeout_cfg \<Rightarrow> 'p option
     \<Rightarrow> int option \<Rightarrow> event list \<Rightarrow> (request list \<times> (exn + pydict)) option" where
  "run_scrape envs usernames headers timeout proxy_config max_concurrency evs =
     (case run (fetch_outcome envs usernames headers timeout proxy_config) evs
             (start_pool (length usernames) max_concurrency) of
        None \<Rightarrow> None
      | Some s \<Rightarrow>
          if aborted s \<or> finished s
          then Some (concat (map (fetch_requests envs usernames headers timeout proxy_config)
                                 (started s)),
                     case gather (outcomes (tasks s)) of
                       Inl e \<Rightarrow> Inl e
                     | Inr results \<Rightarrow> Inr [(''results'', JList (map JObj results))])
          else None)"

section \<open>main\<close>

text \<open>The characters \<^verbatim>\<open>str.strip()\<close> removes, among the code points below 256.\<close>

definition isspace :: "char \<Rightarrow> bool" where
  "isspace c = (of_char c \<in> set [9, 10, 11, 12, 13, 28, 29, 30, 31, 32, 133, 160 :: nat])"

definition strip :: "string \<Rightarrow> string" where
  "strip s = rev (dropWhile isspace (rev (dropWhile isspace s)))"

text \<open>
  Iterating over a value: the items of a list, the characters of a string, the keys
  of a dict; a number, a boolean or \<^verbatim>\<open>None\<close> is not iterable.
\<close>

fun py_iter :: "json \<Rightarrow> exn + json list" where
  "py_iter (JList xs) = Inr xs"
| "py_iter (JStr s) = Inr (map (\<lambda>c. JStr [c]) s)"
| "py_iter (JObj kv) = Inr (map (\<lambda>(k, v). JStr k) kv)"
| "py_iter _ = Inl TypeError"

text \<open>\<^verbatim>\<open>[u.strip() for u in raw_usernames if isinstance(u, str) and u.strip()]\<close>.\<close>

fun clean_usernames :: "json list \<Rightarrow> string list" where
  "clean_usernames [] = []"
| "clean_usernames (JStr u # us) =
     (if strip u = [] then clean_usernames us else strip u # clean_usernames us)"
| "clean_usernames (u # us) = clean_usernames us"

text \<open>
  \<^verbatim>\<open>input_payload.get("usernames") or []\<close>, iterated, where \<^verbatim>\<open>input_payload\<close> is
  \<^verbatim>\<open>await actor.get_input() or {}\<close>.
\<close>

definition raw_usernames :: "json \<Rightarrow> exn + json list" where
  "raw_usernames actor_input =
     then_do (py_get (if truthy actor_input then actor_input else JObj []) ''usernames'' JNull)
       (\<lambda>v. py_iter (if truthy v then v else JList []))"

text \<open>
  The body of \<^verbatim>\<open>main\<close>, from the actor's input, its proxy configuration and the
  schedule of the event loop: the requests sent, and the exception that escapes or the
  value stored under \<^verbatim>\<open>OUTPUT\<close>. Logging and \<^verbatim>\<open>print\<close> are left out.
\<close>

definition main ::
  "json \<Rightarrow> 'p option \<Rightarrow> (nat \<Rightarrow> 'p env) \<Rightarrow> event list
     \<Rightarrow> (request list \<times> (exn + pydict)) option" where
  "main actor_input proxy_config envs evs =
     (case raw_usernames actor_input of
        Inl e \<Rightarrow> Some ([], Inl e)
      | Inr entries \<Rightarrow>
          (let usernames = clean_usernames entries
           in if usernames = []
              then Some ([], Inr [(''error'', JStr ''usernames list is required'')])
              else run_scrape envs usernames BASE_HEADERS HTTPX_TIMEOUT proxy_config (Some 10)
                     evs))"

section \<open>Reading results\<close>

text \<open>
  What the statements below observe of a returned dict: whether \<^verbatim>\<open>status\<close> is
  \<^verbatim>\<open>"ok"\<close>, whether the key \<^verbatim>\<open>error\<close> is there, and whether it holds a non-empty string.
\<close>

definition status_ok :: "pydict \<Rightarrow> bool" where
  "status_ok r = (map_of r ''status'' = Some (JStr ''ok''))"

definition error_present :: "pydict \<Rightarrow> bool" where
  "error_present r = (case map_of r ''error'' of None \<Rightarrow> False | Some v \<Rightarrow> True)"

definition error_populated :: "pydict \<Rightarrow> bool" where
  "error_populated r = (case map_of r ''error'' of Some (JStr (c # m)) \<Rightarrow> True | _ \<Rightarrow> False)"

text \<open>How the network answers the request that \<open>fetch_profile\<close> sends.\<close>

definition sent ::
  "'p env \<Rightarrow> string \<Rightarrow> (string \<times> string) list \<Rightarrow> timeout_cfg \<Rightarrow> 'p option \<Rightarrow> http_outcome" where
  "sent env username headers timeout proxy_config =
     client_get env (request_for username headers timeout (resolve_proxy env proxy_config))"

text \<open>
  The safe lookups in the words of the specification: a field that is absent reads as
  null, and a nested level that is absent reads as the empty object. A level bound to
  something that is not an object has no reading (\<open>None\<close>).
\<close>

definition value_of :: "pydict \<Rightarrow> string \<Rightarrow> json" where
  "value_of d key = (case map_of d key of None \<Rightarrow> JNull | Some v \<Rightarrow> v)"

definition level :: "pydict \<Rightarrow> string \<Rightarrow> pydict option" where
  "level d key =
     (case map_of d key of None \<Rightarrow> Some [] | Some (JObj d') \<Rightarrow> Some d' | Some _ \<Rightarrow> None)"

subsection \<open>Surroundings for the examples\<close>

text \<open>A stand-in for \<^verbatim>\<open>str()\<close>: a string is itself, any other value a fixed text.\<close>

definition plain_str :: "json \<Rightarrow> string" where
  "plain_str v = (case v of JStr s \<Rightarrow> s | _ \<Rightarrow> ''<value>'')"

text \<open>A network that gives the same answer to every request; the proxy handle is its URL.\<close>

definition answering :: "http_outcome \<Rightarrow> string env" where
  "answering outcome =
     \<lparr>py_str = plain_str, new_url = (\<lambda>pc. pc), client_get = (\<lambda>req. outcome)\<rparr>"

definition ok_body :: "json \<Rightarrow> http_outcome" where
  "ok_body data = Responded \<lparr>status_code = 200, body_json = Inr data\<rparr>"

text \<open>Surroundings of the tasks of a run: the first request times out, the others succeed.\<close>

definition timeout_then_ok :: "nat \<Rightarrow> string env" where
  "timeout_then_ok i = answering (if i = 0 then Raised ConnectTimeout else ok_body (JObj []))"

text \<open>The first request succeeds; the others get a body whose \<^verbatim>\<open>data\<close> is null.\<close>

definition ok_then_null_data :: "nat \<Rightarrow> string env" where
  "ok_then_null_data i =
     answering (if i = 0 then ok_body (JObj []) else ok_body (JObj [(''data'', JNull)]))"

text \<open>The first request gets the body \<^verbatim>\<open>[]\<close>; the others succeed.\<close>

definition list_body_then_ok :: "nat \<Rightarrow> string env" where
  "list_body_then_ok i = answering (if i = 0 then ok_body (JList []) else ok_body (JObj []))"

text \<open>Thirteen usernames, as the actor input gives them.\<close>

definition thirteen_names :: "string list" where
  "thirteen_names = [''a'', ''b'', ''c'', ''d'', ''e'', ''f'', ''g'', ''h'', ''i'', ''j'', ''k'',
                     ''l'', ''m'']"

text \<open>
  A schedule for them under the limit of 10: ten fetches start, the first one ends, the
  eleventh takes its slot, and the run is torn down.
\<close>

definition first_ends_early :: "event list" where
  "first_ends_early =
     [Acquire 0, Acquire 1, Acquire 2, Acquire 3, Acquire 4, Acquire 5, Acquire 6, Acquire 7,
      Acquire 8, Acquire 9, Release 0, Acquire 10, Abort]"

section \<open>Properties of fetch_profile\<close>

lemma success_record_shape:
  "success_record username proxy data = Inr r \<Longrightarrow>
   \<exists>a b c d e f g. r = [(''username'', JStr username), (''user_id'', a), (''followers_count'', b),
      (''following_count'', c), (''full_name'', d), (''is_private'', e), (''is_verified'', f),
      (''profile_pic_url'', g), (''raw'', data), (''status'', JStr ''ok''), (''proxy'', proxy)]"
  unfolding success_record_def then_do_def
  by (auto split: sum.splits if_splits)

lemma py_get_level:
  "level d key = Some d' \<Longrightarrow> py_get (JObj d) key (JObj []) = Inr (JObj d')"
  by (auto simp: level_def split: option.splits json.splits)

lemma py_get_value: "py_get (JObj d) key JNull = Inr (value_of d key)"
  by (simp add: value_of_def)

lemma success_record_levels:
  assumes "level kv ''data'' = Some d" and "level d ''user'' = Some u"
    and "level u ''edge_followed_by'' = Some fb" and "level u ''edge_follow'' = Some fl"
  shows "success_record username proxy (JObj kv) =
         Inr [(''username'', JStr username),
              (''user_id'', value_of u ''id''),
              (''followers_count'', value_of fb ''count''),
              (''following_count'', value_of fl ''count''),
              (''full_name'', value_of u ''full_name''),
              (''is_private'', value_of u ''is_private''),
              (''is_verified'', value_of u ''is_verified''),
              (''profile_pic_url'',
                 if truthy (value_of u ''profile_pic_url_hd'')
                 then value_of u ''profile_pic_url_hd'' else value_of u ''profile_pic_url''),
              (''raw'', JObj kv),
              (''status'', JStr ''ok''),
              (''proxy'', proxy)]"
  unfolding success_record_def
  by (simp add: py_get_level[OF assms(1)] py_get_level[OF assms(2)] py_get_level[OF assms(3)]
       py_get_level[OF assms(4)] py_get_value then_do_def del: py_get.simps)

lemma fetch_profile_200:
  assumes "sent env username headers timeout proxy_config = Responded resp"
    and "status_code resp = 200" and "body_json resp = Inr data"
  shows "snd (fetch_profile env username headers timeout proxy_config) =
         from_payload env username (proxy_value (resolve_proxy env proxy_config)) data"
  using assms by (simp add: fetch_profile_def sent_def Let_def)

lemma from_payload_no_error:
  "\<not> truthy (value_of kv ''error'') \<Longrightarrow>
   from_payload env username proxy (JObj kv) = success_record username proxy (JObj kv)"
  by (simp add: from_payload_def then_do_def value_of_def)

text \<open>The examples' surroundings, evaluated.\<close>

lemma sent_answering [simp]:
  "sent (answering outcome) username headers timeout proxy_config = outcome"
  by (simp add: sent_def answering_def)

lemma resolve_answering [simp]:
  "resolve_proxy (answering outcome) proxy_config = proxy_config"
  by (simp add: resolve_proxy_def answering_def split: option.splits)

lemma py_str_answering [simp]: "py_str (answering outcome) = plain_str"
  by (simp add: answering_def)

lemma client_get_answering [simp]: "client_get (answering outcome) req = outcome"
  by (simp add: answering_def)

lemma ok_body_simps [simp]:
  "ok_body data = Responded resp \<longleftrightarrow> resp = \<lparr>status_code = 200, body_json = Inr data\<rparr>"
  by (auto simp: ok_body_def)

subsection \<open>A body that is not an object\<close>

text \<open>
  C3. \<open>fetch_profile\<close> should return one result for every outcome of the request,
  a 200 response whose body parses to a JSON value that is not an object included.
  It does not: for the bodies \<^verbatim>\<open>[]\<close>, \<^verbatim>\<open>5\<close> and \<^verbatim>\<open>"ok"\<close> the call \<^verbatim>\<open>data.get("error")\<close> of line 62 raises
  \<^verbatim>\<open>AttributeError\<close>, outside every \<^verbatim>\<open>try\<close>, before the \<^verbatim>\<open>isinstance(data, dict)\<close>
  test of line 70 is reached, and the exception leaves the function.
\<close>

theorem fetch_profile_list_body_raises:
  "snd (fetch_profile (answering (ok_body (JList []))) ''alice'' BASE_HEADERS HTTPX_TIMEOUT None)
     = Inl AttributeError
   \<and> snd (fetch_profile (answering (ok_body (JInt 5))) ''alice'' BASE_HEADERS HTTPX_TIMEOUT None)
     = Inl AttributeError
   \<and> snd (fetch_profile (answering (ok_body (JStr ''ok''))) ''alice'' BASE_HEADERS HTTPX_TIMEOUT
            None)
     = Inl AttributeError"
  by (simp add: fetch_profile_200 [where resp = "\<lparr>status_code = 200, body_json = Inr data\<rparr>" for data]
        from_payload_def then_do_def)

subsection \<open>An error reported in the payload\<close>

text \<open>
  C5. For every 200 response whose parsed payload carries an embedded error (an object
  whose key \<^verbatim>\<open>error\<close> is bound to a value that is true in Python's sense, the test
  of line 62), \<open>fetch_profile\<close> returns an error result whose \<^verbatim>\<open>status_code\<close> is the
  one the payload declares, or 500 when the payload declares none.
\<close>

theorem embedded_error_status_code:
  assumes "sent env username headers timeout proxy_config = Responded resp"
    and "status_code resp = 200" and "body_json resp = Inr (JObj kv)"
    and "map_of kv ''error'' = Some err" and "truthy err"
  shows "snd (fetch_profile env username headers timeout proxy_config) =
         Inr [(''username'', JStr username),
              (''error'', JStr (''Failed to fetch user details: '' @ py_str env err)),
              (''status_code'', case map_of kv ''status_code'' of None \<Rightarrow> JInt 500 | Some c \<Rightarrow> c),
              (''proxy'', proxy_value (resolve_proxy env proxy_config))]"
  using fetch_profile_200[OF assms(1-3)] assms(4,5)
  by (simp add: from_payload_def then_do_def)

theorem embedded_error_status_code_witness:
  "snd (fetch_profile (answering (ok_body (JObj [(''error'', JStr ''not found''), (''status_code'', JInt 404)])))
         ''alice'' BASE_HEADERS HTTPX_TIMEOUT None) =
     Inr [(''username'', JStr ''alice''),
          (''error'', JStr ''Failed to fetch user details: not found''),
          (''status_code'', JInt 404), (''proxy'', JNull)]
   \<and> snd (fetch_profile (answering (ok_body (JObj [(''error'', JStr ''not found'')])))
         ''alice'' BASE_HEADERS HTTPX_TIMEOUT None) =
     Inr [(''username'', JStr ''alice''),
          (''error'', JStr ''Failed to fetch user details: not found''),
          (''status_code'', JInt 500), (''proxy'', JNull)]"
  using embedded_error_status_code [of "answering (ok_body (JObj [(''error'', JStr ''not found''), (''status_code'', JInt 404)]))"
          "''alice''" BASE_HEADERS HTTPX_TIMEOUT None
          "\<lparr>status_code = 200, body_json = Inr (JObj [(''error'', JStr ''not found''), (''status_code'', JInt 404)])\<rparr>"
          "[(''error'', JStr ''not found''), (''status_code'', JInt 404)]" "JStr ''not found''"]
        embedded_error_status_code [of "answering (ok_body (JObj [(''error'', JStr ''not found'')]))"
          "''alice''" BASE_HEADERS HTTPX_TIMEOUT None
          "\<lparr>status_code = 200, body_json = Inr (JObj [(''error'', JStr ''not found'')])\<rparr>"
          "[(''error'', JStr ''not found'')]" "JStr ''not found''"]
  by (simp add: plain_str_def proxy_value_def)

subsection \<open>Transport failures\<close>

text \<open>
  C6. Every failure of the request itself falls into one of five kinds: connect timeout,
  connect error, write timeout, read timeout, or any other exception. Each yields an
  error result of exactly three fields, the username, the error text and the proxy
  URL the request was sent through, hence without \<^verbatim>\<open>status_code\<close>; the text of a
  connect timeout is \<^verbatim>\<open>Proxy connect timeout\<close>, and that of an uncategorized failure is
  the exception's own text.
\<close>

theorem transport_failure_result:
  assumes "sent env username headers timeout proxy_config = Raised exc"
  shows "snd (fetch_profile env username headers timeout proxy_config) =
         Inr [(''username'', JStr username),
              (''error'', JStr (case exc of
                                 ConnectTimeout \<Rightarrow> ''Proxy connect timeout''
                               | ConnectError \<Rightarrow> ''Proxy connect error''
                               | WriteTimeout \<Rightarrow> ''Proxy write timeout''
                               | ReadTimeout \<Rightarrow> ''Proxy read timeout''
                               | OtherException msg \<Rightarrow> msg)),
              (''proxy'', proxy_value (resolve_proxy env proxy_config))]
       \<and> map req_proxy (fst (fetch_profile env username headers timeout proxy_config))
           = [resolve_proxy env proxy_config]"
  using assms by (cases exc) (simp_all add: fetch_profile_def sent_def Let_def request_for_def)

theorem transport_failure_result_witness:
  "snd (fetch_profile (answering (Raised ConnectTimeout)) ''alice'' BASE_HEADERS HTTPX_TIMEOUT
         (Some ''http://proxy:8000'')) =
     Inr [(''username'', JStr ''alice''), (''error'', JStr ''Proxy connect timeout''),
          (''proxy'', JStr ''http://proxy:8000'')]
   \<and> map req_proxy (fst (fetch_profile (answering (Raised ConnectTimeout)) ''alice'' BASE_HEADERS
         HTTPX_TIMEOUT (Some ''http://proxy:8000''))) = [Some ''http://proxy:8000'']"
  using transport_failure_result [of "answering (Raised ConnectTimeout)" "''alice''" BASE_HEADERS
          HTTPX_TIMEOUT "Some ''http://proxy:8000''" ConnectTimeout]
  by (simp add: proxy_value_def)

subsection \<open>Success or error, never both\<close>

text \<open>
  C2, as amended. Every dict that \<open>fetch_profile\<close> returns has exactly one of the two:
  \<^verbatim>\<open>status\<close> equal to \<^verbatim>\<open>"ok"\<close>, or the key \<^verbatim>\<open>error\<close>. The error text is a non-empty
  string, except that an uncategorized transport exception passes its own text on
  unchanged, which may be empty.
\<close>

theorem status_xor_error:
  assumes "snd (fetch_profile env username headers timeout proxy_config) = Inr r"
  shows "(status_ok r \<noteq> error_present r)
       \<and> (error_present r \<longrightarrow> error_populated r
            \<or> sent env username headers timeout proxy_config = Raised (OtherException []))"
proof (cases "sent env username headers timeout proxy_config")
  case (Raised exc)
  then show ?thesis using assms
    by (cases exc; cases "exc = OtherException []")
       (auto simp: fetch_profile_def sent_def Let_def status_ok_def
          error_present_def error_populated_def split: list.splits)
next
  case (Responded resp)
  show ?thesis
  proof (cases "status_code resp = 200")
    case False
    then show ?thesis using assms Responded
      by (auto simp: fetch_profile_def sent_def Let_def status_ok_def
          error_present_def error_populated_def split: if_splits)
  next
    case True
    show ?thesis
    proof (cases "body_json resp")
      case (Inl exc)
      then show ?thesis using assms Responded True
        by (auto simp: fetch_profile_def sent_def Let_def status_ok_def
          error_present_def error_populated_def)
    next
      case (Inr data)
      have "from_payload env username (proxy_value (resolve_proxy env proxy_config)) data = Inr r"
        using fetch_profile_200[OF Responded True Inr] assms by simp
      then show ?thesis
        by (auto simp: from_payload_def then_do_def status_ok_def
          error_present_def error_populated_def split: sum.splits if_splits
          dest!: success_record_shape)
    qed
  qed
qed

theorem status_xor_error_witness:
  "snd (fetch_profile (answering (Responded \<lparr>status_code = 401, body_json = Inl ''''\<rparr>)) ''bob''
         BASE_HEADERS HTTPX_TIMEOUT None)
     = Inr [(''username'', JStr ''bob''), (''error'', JStr ''Unauthorized error''),
            (''status_code'', JInt 401), (''proxy'', JNull)]
   \<and> \<not> status_ok [(''username'', JStr ''bob''), (''error'', JStr ''Unauthorized error''),
            (''status_code'', JInt 401), (''proxy'', JNull)]
   \<and> error_present [(''username'', JStr ''bob''), (''error'', JStr ''Unauthorized error''),
            (''status_code'', JInt 401), (''proxy'', JNull)]
   \<and> error_populated [(''username'', JStr ''bob''), (''error'', JStr ''Unauthorized error''),
            (''status_code'', JInt 401), (''proxy'', JNull)]"
proof -
  have h: "snd (fetch_profile (answering (Responded \<lparr>status_code = 401, body_json = Inl ''''\<rparr>))
             ''bob'' BASE_HEADERS HTTPX_TIMEOUT None)
     = Inr [(''username'', JStr ''bob''), (''error'', JStr ''Unauthorized error''),
            (''status_code'', JInt 401), (''proxy'', JNull)]"
    by (simp add: fetch_profile_def Let_def answering_def proxy_value_def resolve_proxy_def)
  show ?thesis
    using h status_xor_error [OF h] by (simp add: error_present_def)
qed

text \<open>
  As first stated, C2 asks for a non-empty error text in every error result. An exception
  other than the four named ones whose \<^verbatim>\<open>str()\<close> is empty gives a result that has
  neither \<^verbatim>\<open>status\<close> nor a non-empty \<^verbatim>\<open>error\<close>.
\<close>

theorem status_or_error_populated_counterexample:
  "snd (fetch_profile (answering (Raised (OtherException ''''))) ''alice'' BASE_HEADERS
         HTTPX_TIMEOUT None)
     = Inr [(''username'', JStr ''alice''), (''error'', JStr ''''), (''proxy'', JNull)]
   \<and> \<not> status_ok [(''username'', JStr ''alice''), (''error'', JStr ''''), (''proxy'', JNull)]
   \<and> \<not> error_populated [(''username'', JStr ''alice''), (''error'', JStr ''''), (''proxy'', JNull)]"
  by (simp add: fetch_profile_def Let_def answering_def status_ok_def error_populated_def
        proxy_value_def resolve_proxy_def)

subsection \<open>The success record\<close>

text \<open>
  C4, as amended. For every 200 response whose parsed body is an object without an
  embedded error, and in which each of the levels \<^verbatim>\<open>data\<close>, \<^verbatim>\<open>user\<close>,
  \<^verbatim>\<open>edge_followed_by\<close> and \<^verbatim>\<open>edge_follow\<close> is absent or an object, the success record
  is built by lookups that read an absent level as the empty object and an absent field
  as null; \<^verbatim>\<open>profile_pic_url\<close> is the high-resolution URL when that is present and
  true in Python's sense, and the standard URL (null when absent) otherwise.
\<close>

theorem success_lookups:
  assumes "sent env username headers timeout proxy_config = Responded resp"
    and "status_code resp = 200" and "body_json resp = Inr (JObj kv)"
    and "\<not> truthy (value_of kv ''error'')"
    and "level kv ''data'' = Some d" and "level d ''user'' = Some u"
    and "level u ''edge_followed_by'' = Some fb" and "level u ''edge_follow'' = Some fl"
  shows "snd (fetch_profile env username headers timeout proxy_config) =
         Inr [(''username'', JStr username),
              (''user_id'', value_of u ''id''),
              (''followers_count'', value_of fb ''count''),
              (''following_count'', value_of fl ''count''),
              (''full_name'', value_of u ''full_name''),
              (''is_private'', value_of u ''is_private''),
              (''is_verified'', value_of u ''is_verified''),
              (''profile_pic_url'',
                 if truthy (value_of u ''profile_pic_url_hd'')
                 then value_of u ''profile_pic_url_hd'' else value_of u ''profile_pic_url''),
              (''raw'', JObj kv),
              (''status'', JStr ''ok''),
              (''proxy'', proxy_value (resolve_proxy env proxy_config))]"
proof -
  have "snd (fetch_profile env username headers timeout proxy_config) =
        from_payload env username (proxy_value (resolve_proxy env proxy_config)) (JObj kv)"
    by (rule fetch_profile_200[OF assms(1-3)])
  also have "\<dots> = success_record username (proxy_value (resolve_proxy env proxy_config)) (JObj kv)"
    by (rule from_payload_no_error[OF assms(4)])
  finally show ?thesis
    by (simp only: success_record_levels[OF assms(5-8)])
qed

text \<open>A body without the nested user object gives status ok with every extracted field null.\<close>

theorem success_lookups_witness:
  "snd (fetch_profile (answering (ok_body (JObj []))) ''alice'' BASE_HEADERS HTTPX_TIMEOUT None) =
     Inr [(''username'', JStr ''alice''), (''user_id'', JNull), (''followers_count'', JNull),
          (''following_count'', JNull), (''full_name'', JNull), (''is_private'', JNull),
          (''is_verified'', JNull), (''profile_pic_url'', JNull), (''raw'', JObj []),
          (''status'', JStr ''ok''), (''proxy'', JNull)]"
  using success_lookups [of "answering (ok_body (JObj []))" "''alice''" BASE_HEADERS HTTPX_TIMEOUT
          None "\<lparr>status_code = 200, body_json = Inr (JObj [])\<rparr>" "[]" "[]" "[]" "[]" "[]"]
  by (simp add: value_of_def level_def proxy_value_def)

text \<open>
  As first stated, C4 covers every 200 response without an embedded error. The defaults
  apply to absent keys only: a level that is present but bound to null makes the next
  \<^verbatim>\<open>.get\<close> raise, and no record is built. And a high-resolution URL that is present
  but empty gives way to the standard one.
\<close>

theorem success_lookups_counterexample:
  "\<not> truthy (value_of [(''data'', JNull)] ''error'')
   \<and> snd (fetch_profile (answering (ok_body (JObj [(''data'', JNull)]))) ''alice'' BASE_HEADERS
            HTTPX_TIMEOUT None) = Inl AttributeError
   \<and> snd (fetch_profile (answering (ok_body (JObj [(''data'', JObj [(''user'', JObj
              [(''profile_pic_url_hd'', JStr ''''), (''profile_pic_url'', JStr ''http://pic/sd.jpg'')])])])))
            ''alice'' BASE_HEADERS HTTPX_TIMEOUT None) =
       Inr [(''username'', JStr ''alice''), (''user_id'', JNull), (''followers_count'', JNull),
            (''following_count'', JNull), (''full_name'', JNull), (''is_private'', JNull),
            (''is_verified'', JNull), (''profile_pic_url'', JStr ''http://pic/sd.jpg''),
            (''raw'', JObj [(''data'', JObj [(''user'', JObj
              [(''profile_pic_url_hd'', JStr ''''), (''profile_pic_url'', JStr ''http://pic/sd.jpg'')])])]),
            (''status'', JStr ''ok''), (''proxy'', JNull)]"
  by (simp add: fetch_profile_200 [where resp = "\<lparr>status_code = 200, body_json = Inr data\<rparr>" for data]
        from_payload_def success_record_def then_do_def value_of_def proxy_value_def)

subsection \<open>An error key bound to a false value\<close>

text \<open>
  The test of line 62 is on the truth value of the field, not on the presence of the
  key: with \<^verbatim>\<open>error\<close> bound to a value that is false in Python's sense, the function
  goes on to build the success record, and every dict it returns has status ok, no
  \<^verbatim>\<open>error\<close> key and the body as \<^verbatim>\<open>raw\<close>.
\<close>

lemma falsy_error_success_path:
  assumes "sent env username headers timeout proxy_config = Responded resp"
    and "status_code resp = 200" and "body_json resp = Inr (JObj kv)"
    and "map_of kv ''error'' = Some err" and "\<not> truthy err"
  shows "snd (fetch_profile env username headers timeout proxy_config) =
           success_record username (proxy_value (resolve_proxy env proxy_config)) (JObj kv)
       \<and> (\<forall>r. snd (fetch_profile env username headers timeout proxy_config) = Inr r
              \<longrightarrow> status_ok r \<and> \<not> error_present r \<and> map_of r ''raw'' = Some (JObj kv))
       \<and> (\<forall>d u fb fl. level kv ''data'' = Some d \<and> level d ''user'' = Some u
              \<and> level u ''edge_followed_by'' = Some fb \<and> level u ''edge_follow'' = Some fl
              \<longrightarrow> (\<exists>r. snd (fetch_profile env username headers timeout proxy_config) = Inr r))"
proof -
  let ?res = "snd (fetch_profile env username headers timeout proxy_config)"
  have ne: "\<not> truthy (value_of kv ''error'')"
    using assms(4,5) by (simp add: value_of_def)
  have "?res = from_payload env username (proxy_value (resolve_proxy env proxy_config)) (JObj kv)"
    by (rule fetch_profile_200[OF assms(1-3)])
  also have "\<dots> = success_record username (proxy_value (resolve_proxy env proxy_config)) (JObj kv)"
    by (rule from_payload_no_error[OF ne])
  finally have eq: "?res =
      success_record username (proxy_value (resolve_proxy env proxy_config)) (JObj kv)" .
  have ok: "\<forall>r. ?res = Inr r
              \<longrightarrow> status_ok r \<and> \<not> error_present r \<and> map_of r ''raw'' = Some (JObj kv)"
  proof (intro allI impI)
    fix r assume "?res = Inr r"
    then have "success_record username (proxy_value (resolve_proxy env proxy_config)) (JObj kv)
                 = Inr r"
      using eq by simp
    from success_record_shape [OF this]
    show "status_ok r \<and> \<not> error_present r \<and> map_of r ''raw'' = Some (JObj kv)"
      by (auto simp: status_ok_def error_present_def)
  qed
  have ret: "\<forall>d u fb fl. level kv ''data'' = Some d \<and> level d ''user'' = Some u
              \<and> level u ''edge_followed_by'' = Some fb \<and> level u ''edge_follow'' = Some fl
              \<longrightarrow> (\<exists>r. ?res = Inr r)"
  proof (intro allI impI)
    fix d u fb fl
    assume "level kv ''data'' = Some d \<and> level d ''user'' = Some u
              \<and> level u ''edge_followed_by'' = Some fb \<and> level u ''edge_follow'' = Some fl"
    then have "\<exists>r. success_record username (proxy_value (resolve_proxy env proxy_config))
                  (JObj kv) = Inr r"
      using success_record_levels [of kv d u fb fl] by simp
    then show "\<exists>r. ?res = Inr r"
      using eq by simp
  qed
  show ?thesis
    by (rule conjI [OF eq conjI [OF ok ret]])
qed

text \<open>Null, the empty string, 0 and false are such values.\<close>

lemma falsy_error_empty_string:
  "snd (fetch_profile (answering (ok_body (JObj [(''error'', JStr '''')]))) ''alice'' BASE_HEADERS
         HTTPX_TIMEOUT None) =
     Inr [(''username'', JStr ''alice''), (''user_id'', JNull), (''followers_count'', JNull),
          (''following_count'', JNull), (''full_name'', JNull), (''is_private'', JNull),
          (''is_verified'', JNull), (''profile_pic_url'', JNull),
          (''raw'', JObj [(''error'', JStr '''')]),
          (''status'', JStr ''ok''), (''proxy'', JNull)]
   \<and> \<not> truthy JNull \<and> \<not> truthy (JStr '''') \<and> \<not> truthy (JInt 0) \<and> \<not> truthy (JBool False)"
  using falsy_error_success_path [of "answering (ok_body (JObj [(''error'', JStr '''')]))" "''alice''"
          BASE_HEADERS HTTPX_TIMEOUT None
          "\<lparr>status_code = 200, body_json = Inr (JObj [(''error'', JStr '''')])\<rparr>"
          "[(''error'', JStr '''')]" "JStr ''''"]
  by (simp add: success_record_def then_do_def proxy_value_def)

text \<open>
  C10. For every 200 response whose body is an object with the key \<^verbatim>\<open>error\<close> bound
  to a false value, \<open>fetch_profile\<close> should return a success record with status ok.
  It does not for the body \<^verbatim>\<open>{"error": null, "data": null}\<close>: the error branch is
  not taken, as the claim says, but then \<^verbatim>\<open>data.get("data", {})\<close> is \<^verbatim>\<open>None\<close>, the
  default standing in for an absent key only, and \<^verbatim>\<open>.get("user", {})\<close> on it raises
  \<^verbatim>\<open>AttributeError\<close> at line 70, outside every \<^verbatim>\<open>try\<close>.
\<close>

theorem falsy_error_null_data_raises:
  "map_of [(''error'', JNull), (''data'', JNull)] ''error'' = Some JNull
   \<and> \<not> truthy JNull
   \<and> snd (fetch_profile (answering (ok_body (JObj [(''error'', JNull), (''data'', JNull)])))
            ''alice'' BASE_HEADERS HTTPX_TIMEOUT None) = Inl AttributeError"
  by (simp add: fetch_profile_200 [where resp = "\<lparr>status_code = 200, body_json = Inr data\<rparr>" for data]
        from_payload_def success_record_def then_do_def)

section \<open>Properties of the task system\<close>

text \<open>
  The counter and the number of tasks in flight add up to the initial value of the
  semaphore, in every state any schedule reaches: at no time are more fetches in flight
  than the limit.
\<close>

lemma filter_start:
  "i < length ts \<Longrightarrow> ts ! i = Pending \<Longrightarrow>
   length (filter (\<lambda>t. t = InFlight) (ts[i := InFlight])) = Suc (length (filter (\<lambda>t. t = InFlight) ts))"
proof (induction ts arbitrary: i)
  case Nil
  then show ?case by simp
next
  case (Cons t ts)
  then show ?case by (cases i) auto
qed

lemma filter_done:
  "i < length ts \<Longrightarrow> ts ! i = InFlight \<Longrightarrow>
   Suc (length (filter (\<lambda>t. t = InFlight) (ts[i := Done r]))) = length (filter (\<lambda>t. t = InFlight) ts)"
proof (induction ts arbitrary: i)
  case Nil
  then show ?case by simp
next
  case (Cons t ts)
  then show ?case by (cases i) auto
qed

lemma filter_cancel: "filter (\<lambda>t. t = InFlight) (map cancel ts) = []"
proof (induction ts)
  case Nil
  then show ?case by simp
next
  case (Cons t ts)
  then show ?case by (cases t) simp_all
qed

lemma fire_invariant:
  assumes "fire outcome ev s = Some s'"
  shows "sem_value s' + in_flight s' = sem_value s + in_flight s \<and> length (tasks s') = length (tasks s)"
proof (cases ev)
  case (Acquire i)
  then show ?thesis using assms filter_start [of i "tasks s"]
    by (auto simp: in_flight_def split: if_splits)
next
  case (Release i)
  then show ?thesis using assms filter_done [of i "tasks s" "outcome i"]
    by (auto simp: in_flight_def split: if_splits)
next
  case Abort
  then show ?thesis using assms
    by (auto simp: in_flight_def filter_cancel split: if_splits)
qed

lemma run_invariant:
  "run outcome evs s = Some s' \<Longrightarrow>
   sem_value s' + in_flight s' = sem_value s + in_flight s \<and> length (tasks s') = length (tasks s)"
proof (induction evs arbitrary: s)
  case Nil
  then show ?case by simp
next
  case (Cons ev evs)
  then obtain s1 where f: "fire outcome ev s = Some s1" and r: "run outcome evs s1 = Some s'"
    by (auto split: option.splits)
  from fire_invariant [OF f] Cons.IH [OF r] show ?case by simp
qed

lemma start_pool_counts:
  "sem_value (start_pool n mc) = semaphore_init mc" "in_flight (start_pool n mc) = 0"
  "length (tasks (start_pool n mc)) = n"
  by (simp_all add: start_pool_def in_flight_def)

lemma pool_invariant:
  assumes "run outcome evs (start_pool n mc) = Some s"
  shows "sem_value s + in_flight s = semaphore_init mc" and "length (tasks s) = n"
  using run_invariant [OF assms] by (simp_all add: start_pool_counts)

lemma in_flight_bounded:
  assumes "run outcome evs (start_pool n max_concurrency) = Some s"
  shows "in_flight s \<le> semaphore_init max_concurrency"
  using pool_invariant(1) [OF assms] by simp

lemma in_flight_at_most_maximum:
  assumes "1 \<le> m" and "run outcome evs (start_pool n (Some m)) = Some s"
  shows "int (in_flight s) \<le> m"
proof -
  have "int (semaphore_init (Some m)) = m"
    using assms(1) by (simp add: semaphore_init_def max_concurrency_arg_def)
  with in_flight_bounded [OF assms(2)] show ?thesis by linarith
qed

text \<open>A task that is over holds the outcome of its own fetch.\<close>

lemma cancel_Done: "cancel t = Done r \<longleftrightarrow> t = Done r"
  by (cases t) simp_all

lemma fire_own:
  assumes f: "fire outcome ev s = Some s'"
    and own: "\<And>j r. j < length (tasks s) \<Longrightarrow> tasks s ! j = Done r \<Longrightarrow> r = outcome j"
    and j: "j < length (tasks s')" and d: "tasks s' ! j = Done r"
  shows "r = outcome j"
proof (cases ev)
  case (Acquire i)
  with f have s': "tasks s' = (tasks s)[i := InFlight]"
    by (simp split: if_splits) auto
  show ?thesis
  proof (cases "j = i")
    case True
    with s' j d show ?thesis by simp
  next
    case False
    with s' j d own [of j r] show ?thesis by simp
  qed
next
  case (Release i)
  with f have s': "tasks s' = (tasks s)[i := Done (outcome i)]"
    by (simp split: if_splits) auto
  show ?thesis
  proof (cases "j = i")
    case True
    with s' j d show ?thesis by simp
  next
    case False
    with s' j d own [of j r] show ?thesis by simp
  qed
next
  case Abort
  with f have s': "tasks s' = map cancel (tasks s)"
    by (simp split: if_splits) auto
  with j d own [of j r] show ?thesis by (simp add: cancel_Done)
qed

lemma run_own:
  "run outcome evs s = Some s' \<Longrightarrow>
   (\<And>j r. j < length (tasks s) \<Longrightarrow> tasks s ! j = Done r \<Longrightarrow> r = outcome j) \<Longrightarrow>
   j < length (tasks s') \<Longrightarrow> tasks s' ! j = Done r \<Longrightarrow> r = outcome j"
proof (induction evs arbitrary: s)
  case Nil
  then show ?case by simp
next
  case (Cons ev evs)
  from Cons.prems(1) obtain s1 where f: "fire outcome ev s = Some s1"
    and r: "run outcome evs s1 = Some s'"
    by (auto split: option.splits)
  have "\<And>j r. j < length (tasks s1) \<Longrightarrow> tasks s1 ! j = Done r \<Longrightarrow> r = outcome j"
    using fire_own [OF f Cons.prems(2)] by blast
  from Cons.IH [OF r this Cons.prems(3,4)] show ?case .
qed

lemma start_own:
  "j < length (tasks (start_pool n mc)) \<Longrightarrow> tasks (start_pool n mc) ! j = Done r \<Longrightarrow> r = outcome j"
  by (simp add: start_pool_def)

lemma pool_own:
  assumes "run outcome evs (start_pool n mc) = Some s" and "j < n" and "tasks s ! j = Done r"
  shows "r = outcome j"
  using run_own [OF assms(1) start_own [of _ n mc _ outcome], of j r] assms(2,3)
    pool_invariant(2) [OF assms(1)] by simp

text \<open>A run is torn down only after a fetch has raised.\<close>

lemma raised_cancel: "raised (cancel t) = raised t"
  by (cases t) simp_all

lemma fire_aborted:
  assumes "fire outcome ev s = Some s'" and "aborted s \<Longrightarrow> list_ex raised (tasks s)"
    and "aborted s'"
  shows "list_ex raised (tasks s')"
proof (cases ev)
  case (Acquire i)
  then show ?thesis using assms by (auto split: if_splits)
next
  case (Release i)
  then show ?thesis using assms by (auto split: if_splits)
next
  case Abort
  then show ?thesis using assms
    by (auto simp: list_ex_iff raised_cancel split: if_splits)
qed

lemma run_aborted:
  "run outcome evs s = Some s' \<Longrightarrow> (aborted s \<Longrightarrow> list_ex raised (tasks s)) \<Longrightarrow>
   aborted s' \<Longrightarrow> list_ex raised (tasks s')"
proof (induction evs arbitrary: s)
  case Nil
  then show ?case by simp
next
  case (Cons ev evs)
  from Cons.prems(1) obtain s1 where f: "fire outcome ev s = Some s1"
    and r: "run outcome evs s1 = Some s'"
    by (auto split: option.splits)
  have "aborted s1 \<Longrightarrow> list_ex raised (tasks s1)"
    using fire_aborted [OF f Cons.prems(2)] by blast
  from Cons.IH [OF r this Cons.prems(3)] show ?case .
qed

lemma pool_aborted:
  assumes "run outcome evs (start_pool n mc) = Some s" and "aborted s"
  shows "\<exists>j<n. \<exists>e. tasks s ! j = Done (Inl e) \<and> outcome j = Inl e"
proof -
  have "list_ex raised (tasks s)"
    using run_aborted [OF assms(1) _ assms(2)] by (simp add: start_pool_def)
  then obtain t where t: "t \<in> set (tasks s)" "raised t"
    by (auto simp: list_ex_iff)
  then obtain e where e: "t = Done (Inl e)"
    by (cases t rule: raised.cases) simp_all
  from t(1) obtain j where j: "j < length (tasks s)" "tasks s ! j = t"
    by (auto simp: in_set_conv_nth)
  have jn: "j < n" using j(1) pool_invariant(2) [OF assms(1)] by simp
  have d: "tasks s ! j = Done (Inl e)" using j(2) e by simp
  have "Inl e = outcome j" using pool_own [OF assms(1) jn d] .
  with jn d show ?thesis by metis
qed

text \<open>
  The tasks start in their order: those that have started are the first ones, and the
  others still wait, or were cancelled while waiting.
\<close>

lemma fire_fifo:
  assumes f: "fire outcome ev s = Some s'"
    and K1: "started s = [0..<k]" and K2: "k \<le> length (tasks s)"
    and K3: "\<And>j. j < length (tasks s) \<Longrightarrow> tasks s ! j = Pending \<Longrightarrow> k \<le> j"
    and K4: "\<And>j. j < length (tasks s) \<Longrightarrow> k \<le> j \<Longrightarrow>
               tasks s ! j = Pending \<or> tasks s ! j = Cancelled"
    and K5: "\<not> aborted s \<Longrightarrow> Cancelled \<notin> set (tasks s)"
  shows "\<exists>k'. started s' = [0..<k'] \<and> k' \<le> length (tasks s')
           \<and> (\<forall>j<length (tasks s'). tasks s' ! j = Pending \<longrightarrow> k' \<le> j)
           \<and> (\<forall>j<length (tasks s'). k' \<le> j \<longrightarrow>
                  tasks s' ! j = Pending \<or> tasks s' ! j = Cancelled)
           \<and> (\<not> aborted s' \<longrightarrow> Cancelled \<notin> set (tasks s'))"
proof (cases ev)
  case (Acquire i)
  with f have na: "\<not> aborted s" and i: "i < length (tasks s)" and p: "tasks s ! i = Pending"
    and first: "Pending \<notin> set (take i (tasks s))"
    and s': "s' = s\<lparr>sem_value := sem_value s - 1, tasks := (tasks s)[i := InFlight],
                     started := started s @ [i]\<rparr>"
    by (auto split: if_splits)
  have "k \<le> i" using K3 [OF i p] .
  moreover have "\<not> k < i"
  proof
    assume ki: "k < i"
    then have kl: "k < length (tasks s)" using i by simp
    from K4 [OF kl] have "tasks s ! k = Pending \<or> tasks s ! k = Cancelled" by simp
    moreover have "tasks s ! k \<noteq> Cancelled"
      using K5 [OF na] kl by (metis nth_mem)
    ultimately have "tasks s ! k = Pending" by simp
    moreover have "take i (tasks s) ! k = tasks s ! k" using ki by simp
    moreover have "k < length (take i (tasks s))" using ki i by simp
    ultimately have "Pending \<in> set (take i (tasks s))"
      using nth_mem [of k "take i (tasks s)"] by simp
    with first show False by simp
  qed
  ultimately have ik: "i = k" by simp
  have ts: "tasks s' = (tasks s)[k := InFlight]" and st: "started s' = started s @ [k]"
    using s' ik by simp_all
  have a: "started s' = [0..<Suc k]" using st K1 by simp
  have b: "Suc k \<le> length (tasks s')" using ts i ik by simp
  have c: "\<forall>j<length (tasks s'). tasks s' ! j = Pending \<longrightarrow> Suc k \<le> j"
  proof (intro allI impI)
    fix j assume j: "j < length (tasks s')" and pj: "tasks s' ! j = Pending"
    have jk: "j \<noteq> k"
    proof
      assume "j = k"
      with ts j pj show False by simp
    qed
    with ts pj have "tasks s ! j = Pending" by simp
    with K3 [of j] j ts have "k \<le> j" by simp
    with jk show "Suc k \<le> j" by simp
  qed
  have d: "\<forall>j<length (tasks s'). Suc k \<le> j \<longrightarrow>
             tasks s' ! j = Pending \<or> tasks s' ! j = Cancelled"
  proof (intro allI impI)
    fix j assume j: "j < length (tasks s')" and kj: "Suc k \<le> j"
    then have "tasks s' ! j = tasks s ! j" using ts by simp
    with K4 [of j] j kj ts show "tasks s' ! j = Pending \<or> tasks s' ! j = Cancelled" by simp
  qed
  have "set (tasks s') \<subseteq> insert InFlight (set (tasks s))"
    unfolding ts by (rule set_update_subset_insert)
  with K5 [OF na] have e: "\<not> aborted s' \<longrightarrow> Cancelled \<notin> set (tasks s')" by auto
  from a b c d e show ?thesis by blast
next
  case (Release i)
  with f have na: "\<not> aborted s" and i: "i < length (tasks s)" and p: "tasks s ! i = InFlight"
    and s': "s' = s\<lparr>sem_value := sem_value s + 1, tasks := (tasks s)[i := Done (outcome i)]\<rparr>"
    by (auto split: if_splits)
  have ik: "i < k"
  proof (rule ccontr)
    assume "\<not> i < k"
    then have "k \<le> i" by simp
    from K4 [OF i this] p show False by simp
  qed
  have ts: "tasks s' = (tasks s)[i := Done (outcome i)]" and st: "started s' = started s"
    using s' by simp_all
  have a: "started s' = [0..<k]" using st K1 by simp
  have b: "k \<le> length (tasks s')" using ts K2 by simp
  have c: "\<forall>j<length (tasks s'). tasks s' ! j = Pending \<longrightarrow> k \<le> j"
  proof (intro allI impI)
    fix j assume j: "j < length (tasks s')" and pj: "tasks s' ! j = Pending"
    have "j \<noteq> i"
    proof
      assume "j = i"
      with ts j pj show False by simp
    qed
    with ts pj have "tasks s ! j = Pending" by simp
    with K3 [of j] j ts show "k \<le> j" by simp
  qed
  have d: "\<forall>j<length (tasks s'). k \<le> j \<longrightarrow>
             tasks s' ! j = Pending \<or> tasks s' ! j = Cancelled"
  proof (intro allI impI)
    fix j assume j: "j < length (tasks s')" and kj: "k \<le> j"
    then have "tasks s' ! j = tasks s ! j" using ts ik by simp
    with K4 [of j] j kj ts show "tasks s' ! j = Pending \<or> tasks s' ! j = Cancelled" by simp
  qed
  have "set (tasks s') \<subseteq> insert (Done (outcome i)) (set (tasks s))"
    unfolding ts by (rule set_update_subset_insert)
  with K5 [OF na] have e: "\<not> aborted s' \<longrightarrow> Cancelled \<notin> set (tasks s')" by auto
  from a b c d e show ?thesis by blast
next
  case Abort
  with f have s': "s' = s\<lparr>sem_value := sem_value s + in_flight s, tasks := map cancel (tasks s),
                             aborted := True\<rparr>"
    by (auto split: if_splits)
  have ts: "tasks s' = map cancel (tasks s)" and st: "started s' = started s"
    and ab: "aborted s'"
    using s' by simp_all
  have a: "started s' = [0..<k]" using st K1 by simp
  have b: "k \<le> length (tasks s')" using ts K2 by simp
  have np: "cancel t \<noteq> Pending" for t by (cases t) simp_all
  have c: "\<forall>j<length (tasks s'). tasks s' ! j = Pending \<longrightarrow> k \<le> j"
    using ts np by simp
  have d: "\<forall>j<length (tasks s'). k \<le> j \<longrightarrow>
             tasks s' ! j = Pending \<or> tasks s' ! j = Cancelled"
  proof (intro allI impI)
    fix j assume j: "j < length (tasks s')" and kj: "k \<le> j"
    then have "tasks s ! j = Pending \<or> tasks s ! j = Cancelled"
      using K4 [of j] ts by simp
    then show "tasks s' ! j = Pending \<or> tasks s' ! j = Cancelled"
      using ts j by auto
  qed
  have e: "\<not> aborted s' \<longrightarrow> Cancelled \<notin> set (tasks s')" using ab by simp
  from a b c d e show ?thesis by blast
qed

lemma run_fifo:
  "run outcome evs s = Some s' \<Longrightarrow> started s = [0..<k] \<Longrightarrow> k \<le> length (tasks s) \<Longrightarrow>
   (\<And>j. j < length (tasks s) \<Longrightarrow> tasks s ! j = Pending \<Longrightarrow> k \<le> j) \<Longrightarrow>
   (\<And>j. j < length (tasks s) \<Longrightarrow> k \<le> j \<Longrightarrow> tasks s ! j = Pending \<or> tasks s ! j = Cancelled) \<Longrightarrow>
   (\<not> aborted s \<Longrightarrow> Cancelled \<notin> set (tasks s)) \<Longrightarrow>
   \<exists>k'. started s' = [0..<k'] \<and> k' \<le> length (tasks s')
      \<and> (\<forall>j<length (tasks s'). k' \<le> j \<longrightarrow> tasks s' ! j = Pending \<or> tasks s' ! j = Cancelled)"
proof (induction evs arbitrary: s k)
  case Nil
  then show ?case by auto
next
  case (Cons ev evs)
  from Cons.prems(1) obtain s1 where f: "fire outcome ev s = Some s1"
    and r: "run outcome evs s1 = Some s'"
    by (auto split: option.splits)
  from fire_fifo [OF f Cons.prems(2-6)] obtain k1 where
    k1: "started s1 = [0..<k1]" "k1 \<le> length (tasks s1)"
        "\<forall>j<length (tasks s1). tasks s1 ! j = Pending \<longrightarrow> k1 \<le> j"
        "\<forall>j<length (tasks s1). k1 \<le> j \<longrightarrow> tasks s1 ! j = Pending \<or> tasks s1 ! j = Cancelled"
        "\<not> aborted s1 \<longrightarrow> Cancelled \<notin> set (tasks s1)"
    by blast
  show ?case
    by (rule Cons.IH [OF r k1(1,2)]) (use k1(3-5) in auto)
qed

lemma started_all:
  assumes "run outcome evs (start_pool n mc) = Some s" and "finished s"
  shows "started s = [0..<n]"
proof -
  have "\<exists>k'. started s = [0..<k'] \<and> k' \<le> length (tasks s)
      \<and> (\<forall>j<length (tasks s). k' \<le> j \<longrightarrow> tasks s ! j = Pending \<or> tasks s ! j = Cancelled)"
    by (rule run_fifo [OF assms(1), of 0]) (simp_all add: start_pool_def)
  then obtain k where k: "started s = [0..<k]" "k \<le> length (tasks s)"
    "\<forall>j<length (tasks s). k \<le> j \<longrightarrow> tasks s ! j = Pending \<or> tasks s ! j = Cancelled"
    by blast
  have len: "length (tasks s) = n" using pool_invariant(2) [OF assms(1)] .
  have "\<not> k < n"
  proof
    assume kn: "k < n"
    with k(3) len have "tasks s ! k = Pending \<or> tasks s ! k = Cancelled" by simp
    moreover have "is_done (tasks s ! k)"
      using assms(2) kn len by (simp add: finished_def list_all_length)
    ultimately show False by auto
  qed
  with k(1,2) len show ?thesis by simp
qed

subsection \<open>A fetch that raises, and the other fetches\<close>

text \<open>
  C9. At no time should more fetches be in flight than the configured maximum, and the
  failure of one username should never abort or delay the fetches of the others. The
  bound holds (\<open>in_flight_at_most_maximum\<close>). The second part does not when the
  failure is an exception that leaves \<open>fetch_profile\<close>: with a maximum of 1 and the
  body \<^verbatim>\<open>[]\<close> for the first of three usernames, the first task raises, its slot goes to
  the second, \<^verbatim>\<open>gather\<close> passes the exception on and the run ends; the second fetch is
  cancelled in flight and the third never starts.
\<close>

theorem failed_fetch_cancels_others:
  "run (fetch_outcome list_body_then_ok [''alice'', ''bob'', ''carol''] BASE_HEADERS HTTPX_TIMEOUT
          None)
       [Acquire 0, Release 0, Acquire 1, Abort] (start_pool 3 (Some 1))
     = Some \<lparr>sem_value = 1, tasks = [Done (Inl AttributeError), Cancelled, Cancelled],
             started = [0, 1], aborted = True\<rparr>"
proof -
  have f0: "fetch_outcome list_body_then_ok [''alice'', ''bob'', ''carol''] BASE_HEADERS
              HTTPX_TIMEOUT None 0 = Inl AttributeError"
    by (simp add: fetch_outcome_def list_body_then_ok_def fetch_profile_200
          [where resp = "\<lparr>status_code = 200, body_json = Inr data\<rparr>" for data]
          from_payload_def then_do_def)
  show ?thesis
    by (simp add: start_pool_def semaphore_init_def max_concurrency_arg_def in_flight_def
          numeral_3_eq_3 f0)
qed

subsection \<open>The capacity of the semaphore\<close>



section \<open>Properties of run_scrape\<close>

lemma gather_all_returned:
  "(\<And>t. t \<in> set ts \<Longrightarrow> \<exists>r. t = Inr r) \<Longrightarrow> \<exists>rs. gather ts = Inr rs \<and> map Inr rs = ts"
proof (induction ts)
  case Nil
  then show ?case by simp
next
  case (Cons t ts)
  from Cons.prems [of t] obtain r where t: "t = Inr r" by auto
  from Cons.IH Cons.prems obtain rs where "gather ts = Inr rs" "map Inr rs = ts" by auto
  with t show ?case by simp
qed

lemma gather_raised:
  "Inl e \<in> set ts \<Longrightarrow> \<exists>e'. gather ts = Inl e'"
proof (induction ts)
  case Nil
  then show ?case by simp
next
  case (Cons t ts)
  then show ?case by (cases t) (auto split: sum.splits)
qed

lemma outcomes_done: "outcomes (map (\<lambda>i. Done (f i)) xs) = map f xs"
  by (induction xs) simp_all

lemma in_outcomes: "Done r \<in> set ts \<Longrightarrow> r \<in> set (outcomes ts)"
proof (induction ts)
  case Nil
  then show ?case by simp
next
  case (Cons t ts)
  then show ?case by (cases t) auto
qed

lemma finished_tasks:
  assumes "run outcome evs (start_pool n mc) = Some s" and "finished s"
  shows "tasks s = map (\<lambda>i. Done (outcome i)) [0..<n]"
proof (rule nth_equalityI)
  show "length (tasks s) = length (map (\<lambda>i. Done (outcome i)) [0..<n])"
    using pool_invariant(2) [OF assms(1)] by simp
next
  fix i assume "i < length (tasks s)"
  then have i: "i < n" using pool_invariant(2) [OF assms(1)] by simp
  have "is_done (tasks s ! i)"
    using assms(2) \<open>i < length (tasks s)\<close> by (simp add: finished_def list_all_length)
  then obtain r where r: "tasks s ! i = Done r"
    by (cases "tasks s ! i") simp_all
  have "r = outcome i"
    using pool_own [OF assms(1) i r] .
  with r i show "tasks s ! i = map (\<lambda>i. Done (outcome i)) [0..<n] ! i"
    by simp
qed

lemma fetch_profile_username:
  assumes "snd (fetch_profile env username headers timeout proxy_config) = Inr r"
  shows "map_of r ''username'' = Some (JStr username)"
proof (cases "sent env username headers timeout proxy_config")
  case (Raised exc)
  then show ?thesis using assms
    by (cases exc) (auto simp: fetch_profile_def sent_def Let_def)
next
  case (Responded resp)
  show ?thesis
  proof (cases "status_code resp = 200")
    case False
    then show ?thesis using assms Responded
      by (auto simp: fetch_profile_def sent_def Let_def split: if_splits)
  next
    case True
    show ?thesis
    proof (cases "body_json resp")
      case (Inl exc)
      then show ?thesis using assms Responded True
        by (auto simp: fetch_profile_def sent_def Let_def)
    next
      case (Inr data)
      have "from_payload env username (proxy_value (resolve_proxy env proxy_config)) data = Inr r"
        using fetch_profile_200[OF Responded True Inr] assms by simp
      then show ?thesis
        by (auto simp: from_payload_def then_do_def split: sum.splits if_splits
          dest!: success_record_shape)
    qed
  qed
qed

lemma fetch_requests_url:
  "map req_url (fetch_requests envs usernames headers timeout proxy_config i)
     = [profile_url (usernames ! i)]"
  by (simp add: fetch_requests_def fetch_profile_def Let_def request_for_def)

lemma run_scrape_over:
  assumes "run_scrape envs usernames headers timeout proxy_config max_concurrency evs
             = Some (requests, v)"
  obtains s where
    "run (fetch_outcome envs usernames headers timeout proxy_config) evs
       (start_pool (length usernames) max_concurrency) = Some s"
    and "aborted s \<or> finished s"
    and "requests = concat (map (fetch_requests envs usernames headers timeout proxy_config)
                               (started s))"
    and "v = (case gather (outcomes (tasks s)) of
                Inl e \<Rightarrow> Inl e
              | Inr results \<Rightarrow> Inr [(''results'', JList (map JObj results))])"
  using assms unfolding run_scrape_def
  by (auto split: option.splits if_splits)

text \<open>When every fetch returns a result, every run that ends returns them all, in order.\<close>

lemma run_scrape_keeps_order:
  assumes all: "\<forall>i<length usernames.
             \<exists>r. fetch_outcome envs usernames headers timeout proxy_config i = Inr r"
    and rs: "run_scrape envs usernames headers timeout proxy_config max_concurrency evs
             = Some (requests, v)"
  shows "\<exists>results.
           v = Inr [(''results'', JList (map JObj results))]
         \<and> length results = length usernames
         \<and> (\<forall>i<length usernames.
               fetch_outcome envs usernames headers timeout proxy_config i = Inr (results ! i)
             \<and> map_of (results ! i) ''username'' = Some (JStr (usernames ! i)))
         \<and> map req_url requests = map profile_url usernames"
proof -
  let ?f = "fetch_outcome envs usernames headers timeout proxy_config"
  let ?ts = "map ?f [0..<length usernames]"
  from rs obtain s where
    run: "run ?f evs (start_pool (length usernames) max_concurrency) = Some s"
    and over: "aborted s \<or> finished s"
    and req: "requests = concat (map (fetch_requests envs usernames headers timeout proxy_config)
                               (started s))"
    and v: "v = (case gather (outcomes (tasks s)) of
                Inl e \<Rightarrow> Inl e
              | Inr results \<Rightarrow> Inr [(''results'', JList (map JObj results))])"
    by (rule run_scrape_over)
  have "\<not> aborted s"
  proof
    assume "aborted s"
    from pool_aborted [OF run this] all show False by auto
  qed
  with over have fin: "finished s" by simp
  have out: "outcomes (tasks s) = ?ts"
    by (simp only: finished_tasks [OF run fin] outcomes_done)
  have "\<exists>r. t = Inr r" if "t \<in> set ?ts" for t
    using that all by auto
  from gather_all_returned [of ?ts, OF this] obtain results
    where g: "gather ?ts = Inr results" and m: "map Inr results = ?ts"
    by blast
  have len: "length results = length usernames"
    using arg_cong [OF m, of length] by simp
  have nth: "?f i = Inr (results ! i)" if "i < length usernames" for i
    using arg_cong [OF m, of "\<lambda>xs. xs ! i"] that len by simp
  have name: "map_of (results ! i) ''username'' = Some (JStr (usernames ! i))"
    if "i < length usernames" for i
    using nth [OF that] fetch_profile_username [of "envs i" "usernames ! i" headers timeout
        proxy_config "results ! i"]
    by (simp add: fetch_outcome_def)
  have val: "v = Inr [(''results'', JList (map JObj results))]"
    using v out g by simp
  have "map req_url requests = map (\<lambda>i. profile_url (usernames ! i)) [0..<length usernames]"
    unfolding req started_all [OF run fin]
    by (simp add: map_concat comp_def fetch_requests_url concat_map_singleton)
  also have "\<dots> = map profile_url usernames"
    by (rule nth_equalityI) simp_all
  finally have urls: "map req_url requests = map profile_url usernames" .
  from val len nth name urls show ?thesis by blast
qed

text \<open>When a fetch raises, no run that ends returns a list.\<close>

lemma run_scrape_never_returns:
  assumes i: "i < length usernames"
    and e: "fetch_outcome envs usernames headers timeout proxy_config i = Inl e"
    and rs: "run_scrape envs usernames headers timeout proxy_config max_concurrency evs
             = Some (requests, v)"
  shows "\<exists>e'. v = Inl e'"
proof -
  let ?f = "fetch_outcome envs usernames headers timeout proxy_config"
  from rs obtain s where
    run: "run ?f evs (start_pool (length usernames) max_concurrency) = Some s"
    and over: "aborted s \<or> finished s"
    and v: "v = (case gather (outcomes (tasks s)) of
                Inl e \<Rightarrow> Inl e
              | Inr results \<Rightarrow> Inr [(''results'', JList (map JObj results))])"
    by (rule run_scrape_over)
  have len: "length (tasks s) = length usernames"
    using pool_invariant(2) [OF run] .
  have "\<exists>j e'. j < length (tasks s) \<and> tasks s ! j = Done (Inl e')"
  proof (cases "aborted s")
    case True
    from pool_aborted [OF run True] len show ?thesis by auto
  next
    case False
    with over have "finished s" by simp
    from finished_tasks [OF run this] i e len have "tasks s ! i = Done (Inl e)" by simp
    with i len show ?thesis by auto
  qed
  then obtain j e' where "j < length (tasks s)" "tasks s ! j = Done (Inl e')" by blast
  then have "Done (Inl e') \<in> set (tasks s)" by (metis nth_mem)
  then have "Inl e' \<in> set (outcomes (tasks s))" by (rule in_outcomes)
  from gather_raised [OF this] v show ?thesis by auto
qed

text \<open>Some schedule brings every task to its end: one after another.\<close>

lemma run_append:
  "run outcome (evs @ evs') s =
     (case run outcome evs s of None \<Rightarrow> None | Some s' \<Rightarrow> run outcome evs' s')"
  by (induction evs arbitrary: s) (simp_all split: option.splits)

lemma one_after_another:
  assumes "k < n" and "0 < c"
  shows "run outcome [Acquire k, Release k]
           \<lparr>sem_value = c,
            tasks = map (\<lambda>i. Done (outcome i)) [0..<k] @ replicate (n - k) Pending,
            started = [0..<k], aborted = False\<rparr>
         = Some \<lparr>sem_value = c,
                 tasks = map (\<lambda>i. Done (outcome i)) [0..<Suc k]
                           @ replicate (n - Suc k) Pending,
                 started = [0..<Suc k], aborted = False\<rparr>"
proof -
  from assms(1) obtain d where d: "n - k = Suc d" and d': "n - Suc k = d"
    by (cases "n - k") auto
  have "Pending \<notin> set (map (\<lambda>i. Done (outcome i)) [0..<k])" by auto
  then show ?thesis
    using assms(2) by (simp add: d d' nth_append list_update_append)
qed

lemma complete_prefix:
  assumes "0 < c"
  shows "k \<le> n \<Longrightarrow> \<exists>evs. run outcome evs \<lparr>sem_value = c, tasks = replicate n Pending,
                                          started = [], aborted = False\<rparr>
           = Some \<lparr>sem_value = c,
                   tasks = map (\<lambda>i. Done (outcome i)) [0..<k] @ replicate (n - k) Pending,
                   started = [0..<k], aborted = False\<rparr>"
proof (induction k)
  case 0
  have "run outcome [] \<lparr>sem_value = c, tasks = replicate n Pending, started = [], aborted = False\<rparr>
          = Some \<lparr>sem_value = c,
                  tasks = map (\<lambda>i. Done (outcome i)) [0..<0] @ replicate (n - 0) Pending,
                  started = [0..<0], aborted = False\<rparr>"
    by simp
  then show ?case by blast
next
  case (Suc k)
  then obtain evs where evs: "run outcome evs \<lparr>sem_value = c, tasks = replicate n Pending,
                                             started = [], aborted = False\<rparr>
           = Some \<lparr>sem_value = c,
                   tasks = map (\<lambda>i. Done (outcome i)) [0..<k] @ replicate (n - k) Pending,
                   started = [0..<k], aborted = False\<rparr>"
    by auto
  from Suc.prems have "k < n" by simp
  from one_after_another [OF this assms, of outcome] evs
  have "run outcome (evs @ [Acquire k, Release k])
           \<lparr>sem_value = c, tasks = replicate n Pending, started = [], aborted = False\<rparr>
           = Some \<lparr>sem_value = c,
                   tasks = map (\<lambda>i. Done (outcome i)) [0..<Suc k]
                             @ replicate (n - Suc k) Pending,
                   started = [0..<Suc k], aborted = False\<rparr>"
    by (simp only: run_append option.case)
  then show ?case by blast
qed

lemma complete_schedule:
  "\<exists>evs s. run outcome evs (start_pool n max_concurrency) = Some s \<and> finished s"
proof -
  have c: "0 < semaphore_init max_concurrency"
    by (simp add: semaphore_init_def)
  from complete_prefix [OF c, of n n outcome] obtain evs where
    "run outcome evs (start_pool n max_concurrency)
       = Some \<lparr>sem_value = semaphore_init max_concurrency,
               tasks = map (\<lambda>i. Done (outcome i)) [0..<n], started = [0..<n],
               aborted = False\<rparr>"
    by (auto simp: start_pool_def)
  moreover have "finished \<lparr>sem_value = semaphore_init max_concurrency,
               tasks = map (\<lambda>i. Done (outcome i)) [0..<n], started = [0..<n],
               aborted = False\<rparr>"
    by (simp add: finished_def list_all_iff)
  ultimately show ?thesis by blast
qed

lemma run_scrape_ends:
  "\<exists>evs requests v. run_scrape envs usernames headers timeout proxy_config max_concurrency evs
      = Some (requests, v)"
proof -
  from complete_schedule [of "fetch_outcome envs usernames headers timeout proxy_config"
      "length usernames" max_concurrency]
  obtain evs s where
    "run (fetch_outcome envs usernames headers timeout proxy_config) evs
       (start_pool (length usernames) max_concurrency) = Some s" "finished s"
    by blast
  then have "\<exists>p. run_scrape envs usernames headers timeout proxy_config max_concurrency evs
      = Some p"
    by (simp add: run_scrape_def)
  then show ?thesis by auto
qed

text \<open>
  The entry of a username whose request timed out stays in its place, also when the
  other fetch is over first.
\<close>

lemma timed_out_entry_stays:
  "run_scrape timeout_then_ok [''alice'', ''bob''] BASE_HEADERS HTTPX_TIMEOUT None (Some 10)
     [Acquire 0, Acquire 1, Release 1, Release 0]
     = Some ([request_for ''alice'' BASE_HEADERS HTTPX_TIMEOUT None,
              request_for ''bob'' BASE_HEADERS HTTPX_TIMEOUT None],
             Inr [(''results'',
               JList [JObj [(''username'', JStr ''alice''),
                            (''error'', JStr ''Proxy connect timeout''), (''proxy'', JNull)],
                      JObj [(''username'', JStr ''bob''), (''user_id'', JNull),
                            (''followers_count'', JNull), (''following_count'', JNull),
                            (''full_name'', JNull), (''is_private'', JNull),
                            (''is_verified'', JNull), (''profile_pic_url'', JNull),
                            (''raw'', JObj []), (''status'', JStr ''ok''),
                            (''proxy'', JNull)]])])"
proof -
  have f0: "fetch_outcome timeout_then_ok [''alice'', ''bob''] BASE_HEADERS HTTPX_TIMEOUT None 0
              = Inr [(''username'', JStr ''alice''),
                     (''error'', JStr ''Proxy connect timeout''), (''proxy'', JNull)]"
    by (simp add: fetch_outcome_def timeout_then_ok_def fetch_profile_def Let_def proxy_value_def)
  have f1: "fetch_outcome timeout_then_ok [''alice'', ''bob''] BASE_HEADERS HTTPX_TIMEOUT None
              (Suc 0)
              = Inr [(''username'', JStr ''bob''), (''user_id'', JNull),
                     (''followers_count'', JNull), (''following_count'', JNull),
                     (''full_name'', JNull), (''is_private'', JNull),
                     (''is_verified'', JNull), (''profile_pic_url'', JNull),
                     (''raw'', JObj []), (''status'', JStr ''ok''), (''proxy'', JNull)]"
    by (simp add: fetch_outcome_def timeout_then_ok_def fetch_profile_200
          [where resp = "\<lparr>status_code = 200, body_json = Inr data\<rparr>" for data]
          from_payload_def success_record_def then_do_def proxy_value_def)
  have r0: "fetch_requests timeout_then_ok [''alice'', ''bob''] BASE_HEADERS HTTPX_TIMEOUT None 0
              = [request_for ''alice'' BASE_HEADERS HTTPX_TIMEOUT None]"
    by (simp add: fetch_requests_def fetch_profile_def Let_def resolve_proxy_def)
  have r1: "fetch_requests timeout_then_ok [''alice'', ''bob''] BASE_HEADERS HTTPX_TIMEOUT None
              (Suc 0) = [request_for ''bob'' BASE_HEADERS HTTPX_TIMEOUT None]"
    by (simp add: fetch_requests_def fetch_profile_def Let_def resolve_proxy_def)
  show ?thesis
    by (simp add: run_scrape_def start_pool_def semaphore_init_def max_concurrency_arg_def
          finished_def f0 f1 r0 r1)
qed

subsection \<open>One result per username, in order\<close>

text \<open>
  C1. For every list of usernames, \<open>run_scrape\<close> should return one result per username,
  in the order of the input, dropping no entry when a fetch fails. It does when every
  fetch returns a result (\<open>run_scrape_keeps_order\<close>), not when an exception leaves a
  fetch: with the usernames alice and bob and a 200 body \<^verbatim>\<open>{"data": null}\<close> for bob,
  \<^verbatim>\<open>.get\<close> on \<^verbatim>\<open>None\<close> raises \<^verbatim>\<open>AttributeError\<close> in bob's fetch, \<^verbatim>\<open>gather\<close> passes it
  on, and \<open>run_scrape\<close> raises instead of returning a list, under this schedule and
  under every other; the result of alice is lost with it.
\<close>

theorem run_scrape_loses_results:
  "run_scrape ok_then_null_data [''alice'', ''bob''] BASE_HEADERS HTTPX_TIMEOUT None (Some 10)
     [Acquire 0, Acquire 1, Release 0, Release 1, Abort]
     = Some ([request_for ''alice'' BASE_HEADERS HTTPX_TIMEOUT None,
              request_for ''bob'' BASE_HEADERS HTTPX_TIMEOUT None],
             Inl AttributeError)
   \<and> (\<forall>evs requests output.
         run_scrape ok_then_null_data [''alice'', ''bob''] BASE_HEADERS HTTPX_TIMEOUT None
           (Some 10) evs \<noteq> Some (requests, Inr output))"
proof
  have f0: "fetch_outcome ok_then_null_data [''alice'', ''bob''] BASE_HEADERS HTTPX_TIMEOUT None 0
              = Inr [(''username'', JStr ''alice''), (''user_id'', JNull),
                     (''followers_count'', JNull), (''following_count'', JNull),
                     (''full_name'', JNull), (''is_private'', JNull),
                     (''is_verified'', JNull), (''profile_pic_url'', JNull),
                     (''raw'', JObj []), (''status'', JStr ''ok''), (''proxy'', JNull)]"
    by (simp add: fetch_outcome_def ok_then_null_data_def fetch_profile_200
          [where resp = "\<lparr>status_code = 200, body_json = Inr data\<rparr>" for data]
          from_payload_def success_record_def then_do_def proxy_value_def)
  have f1: "fetch_outcome ok_then_null_data [''alice'', ''bob''] BASE_HEADERS HTTPX_TIMEOUT None
              (Suc 0) = Inl AttributeError"
    by (simp add: fetch_outcome_def ok_then_null_data_def fetch_profile_200
          [where resp = "\<lparr>status_code = 200, body_json = Inr data\<rparr>" for data]
          from_payload_def success_record_def then_do_def proxy_value_def)
  have r0: "fetch_requests ok_then_null_data [''alice'', ''bob''] BASE_HEADERS HTTPX_TIMEOUT None 0
              = [request_for ''alice'' BASE_HEADERS HTTPX_TIMEOUT None]"
    by (simp add: fetch_requests_def fetch_profile_def Let_def resolve_proxy_def)
  have r1: "fetch_requests ok_then_null_data [''alice'', ''bob''] BASE_HEADERS HTTPX_TIMEOUT None
              (Suc 0) = [request_for ''bob'' BASE_HEADERS HTTPX_TIMEOUT None]"
    by (simp add: fetch_requests_def fetch_profile_def Let_def resolve_proxy_def)
  show "run_scrape ok_then_null_data [''alice'', ''bob''] BASE_HEADERS HTTPX_TIMEOUT None (Some 10)
     [Acquire 0, Acquire 1, Release 0, Release 1, Abort]
     = Some ([request_for ''alice'' BASE_HEADERS HTTPX_TIMEOUT None,
              request_for ''bob'' BASE_HEADERS HTTPX_TIMEOUT None],
             Inl AttributeError)"
    by (simp add: run_scrape_def start_pool_def semaphore_init_def max_concurrency_arg_def
          in_flight_def f0 f1 r0 r1)
  show "\<forall>evs requests output.
         run_scrape ok_then_null_data [''alice'', ''bob''] BASE_HEADERS HTTPX_TIMEOUT None
           (Some 10) evs \<noteq> Some (requests, Inr output)"
  proof (intro allI notI)
    fix evs requests outp
    assume "run_scrape ok_then_null_data [''alice'', ''bob''] BASE_HEADERS HTTPX_TIMEOUT None
           (Some 10) evs = Some (requests, Inr outp)"
    from run_scrape_never_returns [OF _ f1 this] show False by simp
  qed
qed

section \<open>Properties of main\<close>

text \<open>
  Entries that are not strings or are blank after trimming are discarded, the others are
  trimmed. If nothing is left, the output is the input-error payload and no request is
  sent, whatever the schedule. Otherwise \<open>run_scrape\<close> is called on the surviving
  usernames, and when it returns its results a request was sent for each of them.
\<close>

lemma clean_usernames_comprehension:
  "clean_usernames entries = [strip u. JStr u \<leftarrow> entries, strip u \<noteq> []]"
proof (induction entries)
  case Nil
  then show ?case by simp
next
  case (Cons e es)
  then show ?case by (cases e) simp_all
qed

lemma main_no_usernames:
  assumes "raw_usernames actor_input = Inr entries" and "clean_usernames entries = []"
  shows "main actor_input proxy_config envs evs
           = Some ([], Inr [(''error'', JStr ''usernames list is required'')])"
  using assms by (simp add: main_def)

lemma main_some_usernames:
  assumes "raw_usernames actor_input = Inr entries" and "clean_usernames entries \<noteq> []"
  shows "main actor_input proxy_config envs evs
           = run_scrape envs (clean_usernames entries) BASE_HEADERS HTTPX_TIMEOUT proxy_config
               (Some 10) evs"
  using assms by (simp add: main_def)

lemma main_fetches_all:
  assumes "raw_usernames actor_input = Inr entries"
    and "main actor_input proxy_config envs evs = Some (requests, Inr output)"
    and "clean_usernames entries \<noteq> []"
  shows "map req_url requests = map profile_url (clean_usernames entries)"
proof -
  let ?us = "clean_usernames entries"
  have "run_scrape envs ?us BASE_HEADERS HTTPX_TIMEOUT proxy_config (Some 10) evs
          = main actor_input proxy_config envs evs"
    by (rule main_some_usernames [OF assms(1,3), symmetric])
  also note assms(2)
  finally have rs: "run_scrape envs ?us BASE_HEADERS HTTPX_TIMEOUT proxy_config (Some 10) evs
              = Some (requests, Inr output)" .
  have "\<exists>r. fetch_outcome envs ?us BASE_HEADERS HTTPX_TIMEOUT proxy_config i = Inr r"
    if "i < length ?us" for i
  proof (cases "fetch_outcome envs ?us BASE_HEADERS HTTPX_TIMEOUT proxy_config i")
    case (Inl e)
    from run_scrape_never_returns [OF that Inl rs] show ?thesis by simp
  next
    case (Inr r)
    then show ?thesis by simp
  qed
  then have "\<forall>i<length ?us.
      \<exists>r. fetch_outcome envs ?us BASE_HEADERS HTTPX_TIMEOUT proxy_config i = Inr r"
    by simp
  from run_scrape_keeps_order [OF this rs] show ?thesis by blast
qed

lemma strip_letter: "\<not> isspace c \<Longrightarrow> strip [c] = [c]"
  by (simp add: strip_def)

subsection \<open>The input boundary\<close>

text \<open>
  C7. Entries that are not strings or are blank after trimming should be discarded; an
  empty remainder should give the input-error payload without any fetch; otherwise every
  surviving username should be fetched. The first two parts hold (\<open>main_no_usernames\<close>).
  The last does not when an exception leaves a fetch: with thirteen usernames, under the
  limit of 10 that \<open>main\<close> sets, and the body \<^verbatim>\<open>[]\<close> for the first, ten fetches start,
  the first raises, the eleventh takes its slot, and the exception ends the run; the
  last two usernames are never fetched.
\<close>

theorem main_leaves_usernames_out:
  "clean_usernames (map JStr thirteen_names) = thirteen_names
   \<and> main (JObj [(''usernames'', JList (map JStr thirteen_names))]) None list_body_then_ok
        first_ends_early
     = Some (map (\<lambda>u. request_for u BASE_HEADERS HTTPX_TIMEOUT None)
               [''a'', ''b'', ''c'', ''d'', ''e'', ''f'', ''g'', ''h'', ''i'', ''j'', ''k''],
             Inl AttributeError)"
proof
  show c: "clean_usernames (map JStr thirteen_names) = thirteen_names"
    by (simp add: thirteen_names_def strip_letter isspace_def)
  have raw: "raw_usernames (JObj [(''usernames'', JList (map JStr thirteen_names))])
               = Inr (map JStr thirteen_names)"
    by (simp add: raw_usernames_def then_do_def thirteen_names_def)
  have ne: "clean_usernames (map JStr thirteen_names) \<noteq> []"
    unfolding c by (simp add: thirteen_names_def)
  have f0: "fetch_outcome list_body_then_ok thirteen_names BASE_HEADERS HTTPX_TIMEOUT None 0
              = Inl AttributeError"
    by (simp add: fetch_outcome_def list_body_then_ok_def fetch_profile_200
          [where resp = "\<lparr>status_code = 200, body_json = Inr data\<rparr>" for data]
          from_payload_def then_do_def)
  have req: "fetch_requests list_body_then_ok thirteen_names BASE_HEADERS HTTPX_TIMEOUT None i
              = [request_for (thirteen_names ! i) BASE_HEADERS HTTPX_TIMEOUT None]" for i
    by (simp add: fetch_requests_def fetch_profile_def Let_def resolve_proxy_def)
  have len: "length thirteen_names = 13"
    by (simp add: thirteen_names_def)
  have "run_scrape list_body_then_ok thirteen_names BASE_HEADERS HTTPX_TIMEOUT None (Some 10)
          first_ends_early
        = Some (map (\<lambda>u. request_for u BASE_HEADERS HTTPX_TIMEOUT None)
               [''a'', ''b'', ''c'', ''d'', ''e'', ''f'', ''g'', ''h'', ''i'', ''j'', ''k''],
             Inl AttributeError)"
    by (simp add: run_scrape_def first_ends_early_def start_pool_def semaphore_init_def
          max_concurrency_arg_def in_flight_def len eval_nat_numeral f0 req)
       (simp add: thirteen_names_def)
  then show "main (JObj [(''usernames'', JList (map JStr thirteen_names))]) None list_body_then_ok
        first_ends_early
     = Some (map (\<lambda>u. request_for u BASE_HEADERS HTTPX_TIMEOUT None)
               [''a'', ''b'', ''c'', ''d'', ''e'', ''f'', ''g'', ''h'', ''i'', ''j'', ''k''],
             Inl AttributeError)"
    using main_some_usernames [OF raw ne, of None list_body_then_ok first_ends_early] c
    by simp
qed

end
